theory Spec2Isabelle
  imports Main "HOL-Library.FSet" "HOL-Library.Word" "HOL-Library.Signed_Division"
begin

section \<open>Data model of the socket.io server (server.go)\<close>

text \<open>
  A \<open>*Channel\<close> is a pointer. Pointers are addresses into an object store, so that two
  channels with the same session id remain different channels, as in the Go program.
\<close>

type_synonym chan = nat

datatype error = ErrorServerNotSet | ErrorConnectionNotFound | OtherError string

datatype panic = Panic error

text \<open>
  \<open>time.Duration\<close> is a signed 64-bit count of nanoseconds and Go's \<open>int\<close> is taken to be
  64 bits wide. \<open>int(d / time.Millisecond)\<close> divides by \<open>1000000\<close>, truncating towards zero.
\<close>

type_synonym duration = "64 word"

definition millis :: "duration \<Rightarrow> 64 word" where
  "millis d = word_of_int (sint d sdiv 1000000)"

datatype transport_kind = PollingConnection | WebsocketConnection

text \<open>
  Modelled from the spec: \<open>transport.Connection\<close> is declared outside server.go. The server
  reads its concrete type and its \<open>PingParams()\<close>, the configured ping interval and timeout.
\<close>

record connection =
  kind :: transport_kind
  pingInterval :: duration
  pingTimeout :: duration

definition PingParams :: "connection \<Rightarrow> duration \<times> duration" where
  "PingParams conn = (pingInterval conn, pingTimeout conn)"

record connectionHeader =
  Sid :: string
  Upgrades :: "string list"
  PingInterval :: "64 word"
  PingTimeout :: "64 word"

type_synonym http_header = "(string \<times> string list) list"

text \<open>
  Modelled from the spec: the \<open>Channel\<close> struct is declared outside server.go. Its fields
  \<open>conn\<close>, \<open>address\<close>, \<open>header\<close> and \<open>connHeader\<close> are the ones server.go sets; \<open>alive\<close> is the
  liveness flag, \<open>outC\<close> the outbound queue of encoded frames (oldest first), \<open>upgradedC\<close> tells
  whether the one-shot upgrade signal is waiting to be received, and \<open>stubbed\<close> whether the
  channel has been deactivated by \<open>stub()\<close>. The back pointer \<open>server\<close> is left out: there is
  one server.
\<close>

record Channel =
  conn :: connection
  address :: string
  header :: http_header
  connHeader :: connectionHeader
  alive :: bool
  outC :: "string list"
  upgradedC :: bool
  stubbed :: bool

text \<open>
  The \<open>Server\<close> struct: \<open>channels\<close> maps a room name to its set of channels, \<open>rooms\<close> maps a
  channel to its set of room names, \<open>sids\<close> maps a session id to its channel. A Go
  \<open>map[K]struct{}\<close> is a finite set. \<open>heap\<close> holds the Channel objects the pointers designate
  and \<open>brk\<close> is the next unused address. The mutexes are left out: every function below runs
  as one atomic step.
\<close>

record Server =
  channels :: "string \<rightharpoonup> chan fset"
  rooms :: "chan \<rightharpoonup> string fset"
  sids :: "string \<rightharpoonup> chan"
  heap :: "chan \<Rightarrow> Channel"
  brk :: chan

text \<open>
  Modelled from the spec: \<open>Channel.Id()\<close> and \<open>Channel.IsAlive()\<close> are defined outside
  server.go; they return the channel's session id and its liveness flag.
\<close>

definition Channel_Id :: "Server \<Rightarrow> chan \<Rightarrow> string" where
  "Channel_Id s c = Sid (connHeader (heap s c))"

definition IsAlive :: "Server \<Rightarrow> chan \<Rightarrow> bool" where
  "IsAlive s c = alive (heap s c)"

text \<open>
  Go leaves the order of a \<open>range\<close> over a map unspecified. Each function with such a loop
  takes the order of that run as a list, which has to enumerate the map's keys.
\<close>

definition enumerates :: "'a list \<Rightarrow> 'a fset \<Rightarrow> bool" where
  "enumerates xs A \<longleftrightarrow> distinct xs \<and> fset_of_list xs = A"

section \<open>Session registry\<close>

text \<open>\<open>Server.GetChannel\<close>: a lookup under the read lock; the server is returned as it was.\<close>

definition GetChannel :: "string \<Rightarrow> Server \<Rightarrow> (error + chan) \<times> Server" where
  "GetChannel sid s =
     (case sids s sid of
        None \<Rightarrow> (Inl ErrorConnectionNotFound, s)
      | Some c \<Rightarrow> (Inr c, s))"

text \<open>\<open>onConnection\<close>: \<open>c.server.sids[c.Id()] = c\<close>.\<close>

definition onConnection :: "chan \<Rightarrow> Server \<Rightarrow> Server" where
  "onConnection c s = s\<lparr>sids := (sids s)(Channel_Id s c \<mapsto> c)\<rparr>"

section \<open>Room index\<close>

text \<open>
  The loop of \<open>onDisconnection\<close> over the rooms of \<open>c\<close>: where the room has an entry, \<open>c\<close> is
  deleted from it, and the entry is deleted when it has become empty.
\<close>

fun leaveRooms :: "chan \<Rightarrow> string list \<Rightarrow> (string \<rightharpoonup> chan fset) \<Rightarrow> (string \<rightharpoonup> chan fset)" where
  "leaveRooms c [] chs = chs"
| "leaveRooms c (room # rest) chs =
     leaveRooms c rest
       (case chs room of
          None \<Rightarrow> chs
        | Some curRoom \<Rightarrow>
            (let curRoom' = curRoom |-| {|c|}
             in if fcard curRoom' = 0 then chs(room := None) else chs(room \<mapsto> curRoom')))"

text \<open>
  \<open>onDisconnection\<close>: the deferred function deletes \<open>sids[c.Id()]\<close> on every path, after the
  body; the body returns early when \<open>c\<close> has no entry in \<open>rooms\<close>. \<open>order\<close> is the order in
  which the \<open>range\<close> loop visits the rooms of \<open>c\<close>.
\<close>

definition onDisconnection :: "string list \<Rightarrow> chan \<Rightarrow> Server \<Rightarrow> Server" where
  "onDisconnection order c s =
     (let s' = (case rooms s c of
                  None \<Rightarrow> s
                | Some _ \<Rightarrow> s\<lparr>channels := leaveRooms c order (channels s),
                              rooms := (rooms s)(c := None)\<rparr>)
      in s'\<lparr>sids := (sids s')(Channel_Id s' c := None)\<rparr>)"

section \<open>Room queries and broadcast\<close>

text \<open>
  \<open>Server.Amount\<close>: \<open>roomChannels, _ := s.channels[room]\<close> is the nil map when the room has
  no entry, and \<open>len\<close> of the nil map is 0.
\<close>

definition Amount :: "string \<Rightarrow> Server \<Rightarrow> int" where
  "Amount room s =
     (let roomChannels = (case channels s room of None \<Rightarrow> {||} | Some m \<Rightarrow> m)
      in int (fcard roomChannels))"

definition nil :: chan where
  "nil = 0"

text \<open>
  The loop of \<open>Server.List\<close>: \<open>roomChannelsCopy[i] = channel; i++\<close>. A write past the end of
  the slice is a run-time panic in Go.
\<close>

fun List_loop :: "chan list \<Rightarrow> nat \<Rightarrow> chan list \<Rightarrow> panic + chan list" where
  "List_loop [] i roomChannelsCopy = Inr roomChannelsCopy"
| "List_loop (channel # rest) i roomChannelsCopy =
     (if i < length roomChannelsCopy
      then List_loop rest (Suc i) (roomChannelsCopy[i := channel])
      else Inl (Panic (OtherError ''index out of range'')))"

text \<open>
  \<open>Server.List\<close>: an empty slice for an unknown room, otherwise a new slice of
  \<open>len(roomChannels)\<close> nil pointers filled by the loop. \<open>order\<close> is the order in which the
  \<open>range\<close> loop visits the members.
\<close>

definition List :: "chan list \<Rightarrow> string \<Rightarrow> Server \<Rightarrow> panic + chan list" where
  "List order room s =
     (case channels s room of
        None \<Rightarrow> Inr []
      | Some roomChannels \<Rightarrow> List_loop order 0 (replicate (fcard roomChannels) nil))"

text \<open>
  The loop of \<open>Server.BroadcastTo\<close>. Each \<open>go cn.Emit(method, payload)\<close> is recorded as the
  triple of its receiver and arguments; the result lists the calls dispatched, in order.
\<close>

fun BroadcastTo_loop :: "Server \<Rightarrow> chan list \<Rightarrow> string \<Rightarrow> 'p \<Rightarrow> (chan \<times> string \<times> 'p) list" where
  "BroadcastTo_loop s [] method payload = []"
| "BroadcastTo_loop s (cn # rest) method payload =
     (if IsAlive s cn then [(cn, method, payload)] else [])
     @ BroadcastTo_loop s rest method payload"

definition BroadcastTo ::
  "chan list \<Rightarrow> string \<Rightarrow> string \<Rightarrow> 'p \<Rightarrow> Server \<Rightarrow> (chan \<times> string \<times> 'p) list" where
  "BroadcastTo order room method payload s =
     (case channels s room of
        None \<Rightarrow> []
      | Some roomChannels \<Rightarrow> BroadcastTo_loop s order method payload)"

section \<open>Handshake\<close>

text \<open>
  Modelled from the spec: \<open>protocol.Message\<close> and its kinds are declared outside server.go;
  a message is a kind and a payload, and server.go builds the kinds open and empty.
\<close>

datatype MessageType = MessageTypeOpen | MessageTypeEmpty

record Message =
  Type :: MessageType
  Args :: string

text \<open>\<open>c.outC <- frame\<close>: the frame is appended to the outbound queue of \<open>c\<close>.\<close>

definition send_outC :: "chan \<Rightarrow> string \<Rightarrow> Server \<Rightarrow> Server" where
  "send_outC c frame s =
     s\<lparr>heap := (heap s)(c := (heap s c)\<lparr>outC := outC (heap s c) @ [frame]\<rparr>)\<rparr>"

text \<open>
  \<open>Server.sendOpenSequence\<close>. \<open>json.Marshal\<close> and \<open>protocol.MustEncode\<close> belong to other
  packages and are parameters: \<open>marshal\<close> may fail, the codec \<open>MustEncode\<close> turns a message
  into a frame. The result pairs the outcome (\<open>Inl\<close> a panic) with the server at that point.
\<close>

definition sendOpenSequence ::
  "(connectionHeader \<Rightarrow> error + string) \<Rightarrow> (Message \<Rightarrow> string) \<Rightarrow> chan \<Rightarrow> Server
     \<Rightarrow> (panic + unit) \<times> Server" where
  "sendOpenSequence marshal MustEncode c s =
     (case marshal (connHeader (heap s c)) of
        Inl err \<Rightarrow> (Inl (Panic err), s)
      | Inr jsonHdr \<Rightarrow>
          (Inr (),
           send_outC c (MustEncode \<lparr>Type = MessageTypeEmpty, Args = []\<rparr>)
             (send_outC c (MustEncode \<lparr>Type = MessageTypeOpen, Args = jsonHdr\<rparr>) s)))"

text \<open>
  Modelled from the spec: \<open>Channel.init()\<close> is defined outside server.go. A channel is alive
  from creation, its outbound queue starts empty and its upgrade signal has not fired.
\<close>

definition init :: "Channel \<Rightarrow> Channel" where
  "init ch = ch\<lparr>alive := True, outC := [], upgradedC := False, stubbed := False\<rparr>"

text \<open>
  \<open>c := &Channel{conn: conn, address: address, header: header, server: s, connHeader:
  connHeader}; c.init()\<close>: a new object at the next unused address, the other fields zero.
\<close>

definition new_Channel ::
  "connection \<Rightarrow> string \<Rightarrow> http_header \<Rightarrow> connectionHeader \<Rightarrow> Server \<Rightarrow> chan \<times> Server" where
  "new_Channel cn addr hdr connHdr s =
     (brk s,
      s\<lparr>heap := (heap s)(brk s :=
             init \<lparr>conn = cn, address = addr, header = hdr, connHeader = connHdr,
                   alive = False, outC = [], upgradedC = False, stubbed = False\<rparr>),
        brk := Suc (brk s)\<rparr>)"

text \<open>
  \<open>Server.setupEventLoop\<close>. \<open>sid\<close> is the value of the id-generating closure (clock, random
  source, digest and encoding are external). \<open>SetSid\<close> acts on the polling transport only and
  the two loops are started as goroutines; neither touches the server's maps here.
  \<open>callLoopEvent(c, OnConnection)\<close> runs the \<open>onConnection\<close> that \<open>NewServer\<close> installs.
  The result carries the new channel, or the panic of the open sequence.
\<close>

definition setupEventLoop ::
  "(connectionHeader \<Rightarrow> error + string) \<Rightarrow> (Message \<Rightarrow> string) \<Rightarrow> string
     \<Rightarrow> connection \<Rightarrow> string \<Rightarrow> http_header \<Rightarrow> Server \<Rightarrow> (panic + chan) \<times> Server" where
  "setupEventLoop marshal MustEncode sid cn addr hdr s =
     (let (interval, timeout) = PingParams cn;
          connHdr = \<lparr>Sid = sid, Upgrades = [''websocket''],
                     PingInterval = millis interval, PingTimeout = millis timeout\<rparr>;
          (c, s1) = new_Channel cn addr hdr connHdr s
      in case sendOpenSequence marshal MustEncode c s1 of
           (Inl p, s2) \<Rightarrow> (Inl p, s2)
         | (Inr _, s2) \<Rightarrow> (Inr c, onConnection c s2))"

section \<open>Transport upgrade\<close>

text \<open>
  Modelled from the spec: \<open>Channel.stub()\<close> is defined outside server.go; it deactivates the
  channel, which is recorded in the flag \<open>stubbed\<close>.
\<close>

definition stub :: "chan \<Rightarrow> Server \<Rightarrow> Server" where
  "stub c s = s\<lparr>heap := (heap s)(c := (heap s c)\<lparr>stubbed := True\<rparr>)\<rparr>"

text \<open>
  \<open>Server.setupUpgradeEventLoop\<close> blocks in \<open>\<open><-c.upgradedC\<close>\<close> until the inbound loop of
  the new channel, a goroutine, sends the signal. The function is therefore a machine with a
  program counter and its two locals, stepped by a scheduler that picks either the function
  itself or the inbound loop of the new channel. \<open>trace\<close> records what has happened, oldest
  event first.
\<close>

datatype upc = AtLookup | AtRegister | AtAwait | AtStub | Returned

datatype uevent = EvRegistered chan | EvProbeAck chan | EvReceived chan | EvStubbed chan

datatype actor = Orchestrator | InLoop

record urun =
  pc :: upc
  loc_cPolling :: "chan option"
  loc_c :: "chan option"
  srv :: Server
  trace :: "uevent list"

text \<open>
  Modelled from the spec: the inbound loop is defined outside server.go. When it observes the
  client's upgrade-probe acknowledgment on the new transport it fires the channel's upgrade
  signal.
\<close>

definition fire_upgradedC :: "chan \<Rightarrow> Server \<Rightarrow> Server" where
  "fire_upgradedC c s = s\<lparr>heap := (heap s)(c := (heap s c)\<lparr>upgradedC := True\<rparr>)\<rparr>"

text \<open>\<open>\<open><-c.upgradedC\<close>\<close>, once the signal is there: the value is taken off the channel.\<close>

definition recv_upgradedC :: "chan \<Rightarrow> Server \<Rightarrow> Server" where
  "recv_upgradedC c s = s\<lparr>heap := (heap s)(c := (heap s c)\<lparr>upgradedC := False\<rparr>)\<rparr>"

text \<open>
  One step. The function's own steps follow its text: the lookup with the early return and
  the construction of the new channel, whose loops start (\<open>AtLookup\<close>); \<open>onConnection(c)\<close>
  (\<open>AtRegister\<close>); the receive, which does not move while no signal is there (\<open>AtAwait\<close>);
  \<open>cPolling.stub()\<close> (\<open>AtStub\<close>). The inbound loop can fire once the new channel exists.
\<close>

fun ustep :: "connection \<Rightarrow> string \<Rightarrow> http_header \<Rightarrow> string \<Rightarrow> actor \<Rightarrow> urun \<Rightarrow> urun" where
  "ustep cn remoteAddr hdr sid Orchestrator r =
     (case pc r of
        AtLookup \<Rightarrow>
          (case GetChannel sid (srv r) of
             (Inl err, s) \<Rightarrow> r\<lparr>pc := Returned, srv := s\<rparr>
           | (Inr cPolling, s) \<Rightarrow>
               (let (interval, timeout) = PingParams cn;
                    connHdr = \<lparr>Sid = sid, Upgrades = [],
                               PingInterval = millis interval, PingTimeout = millis timeout\<rparr>;
                    (c, s1) = new_Channel cn remoteAddr hdr connHdr s
                in r\<lparr>pc := AtRegister, loc_cPolling := Some cPolling, loc_c := Some c,
                      srv := s1\<rparr>))
      | AtRegister \<Rightarrow>
          (case loc_c r of
             None \<Rightarrow> r
           | Some c \<Rightarrow> r\<lparr>pc := AtAwait, srv := onConnection c (srv r),
                          trace := trace r @ [EvRegistered c]\<rparr>)
      | AtAwait \<Rightarrow>
          (case loc_c r of
             None \<Rightarrow> r
           | Some c \<Rightarrow>
               if upgradedC (heap (srv r) c)
               then r\<lparr>pc := AtStub, srv := recv_upgradedC c (srv r),
                      trace := trace r @ [EvReceived c]\<rparr>
               else r)
      | AtStub \<Rightarrow>
          (case loc_cPolling r of
             None \<Rightarrow> r
           | Some cPolling \<Rightarrow> r\<lparr>pc := Returned, srv := stub cPolling (srv r),
                                trace := trace r @ [EvStubbed cPolling]\<rparr>)
      | Returned \<Rightarrow> r)"
| "ustep cn remoteAddr hdr sid InLoop r =
     (case loc_c r of
        None \<Rightarrow> r
      | Some c \<Rightarrow> r\<lparr>srv := fire_upgradedC c (srv r), trace := trace r @ [EvProbeAck c]\<rparr>)"

fun exec :: "connection \<Rightarrow> string \<Rightarrow> http_header \<Rightarrow> string \<Rightarrow> actor list \<Rightarrow> urun \<Rightarrow> urun" where
  "exec cn remoteAddr hdr sid [] r = r"
| "exec cn remoteAddr hdr sid (a # sched) r =
     exec cn remoteAddr hdr sid sched (ustep cn remoteAddr hdr sid a r)"

text \<open>
  \<open>Server.setupUpgradeEventLoop\<close> under the schedule \<open>sched\<close>: the state of the call after
  these steps. The call has returned when its \<open>pc\<close> is \<open>Returned\<close>.
\<close>

definition setupUpgradeEventLoop ::
  "connection \<Rightarrow> string \<Rightarrow> http_header \<Rightarrow> string \<Rightarrow> actor list \<Rightarrow> Server \<Rightarrow> urun" where
  "setupUpgradeEventLoop cn remoteAddr hdr sid sched s =
     exec cn remoteAddr hdr sid sched
       \<lparr>pc = AtLookup, loc_cPolling = None, loc_c = None, srv = s, trace = []\<rparr>"

section \<open>Invariants\<close>

definition membersOf :: "Server \<Rightarrow> string \<Rightarrow> chan fset" where
  "membersOf s room = (case channels s room of None \<Rightarrow> {||} | Some m \<Rightarrow> m)"

definition roomsOf :: "Server \<Rightarrow> chan \<Rightarrow> string fset" where
  "roomsOf s c = (case rooms s c of None \<Rightarrow> {||} | Some r \<Rightarrow> r)"

text \<open>
  The room index is consistent: \<open>c\<close> is a member of a room exactly when the room is among
  the rooms of \<open>c\<close>, and no room is kept with an empty set of members.
\<close>

definition room_inv :: "Server \<Rightarrow> bool" where
  "room_inv s \<longleftrightarrow>
     (\<forall>room c. c |\<in>| membersOf s room \<longleftrightarrow> room |\<in>| roomsOf s c)
     \<and> (\<forall>room. channels s room \<noteq> Some {||})"

text \<open>A room's entry once \<open>c\<close> has left: the members without \<open>c\<close>, and no entry when none is left.\<close>

definition pruned :: "chan \<Rightarrow> chan fset option \<Rightarrow> chan fset option" where
  "pruned c e =
     (case e of
        None \<Rightarrow> None
      | Some m \<Rightarrow> if m |-| {|c|} = {||} then None else Some (m |-| {|c|}))"

text \<open>
  What the upgrade machine maintains: no event before the lookup; a signal waiting on the
  new channel was announced in the trace; a stub event only as the last event of a returned
  call, after the announcement and the receipt of the signal, in this order.
\<close>

definition signal_received :: "chan \<Rightarrow> uevent list \<Rightarrow> bool" where
  "signal_received c tr \<longleftrightarrow> (\<exists>p1 p2. tr = p1 @ EvProbeAck c # p2 \<and> EvReceived c \<in> set p2)"

definition no_stub :: "uevent list \<Rightarrow> bool" where
  "no_stub tr \<longleftrightarrow> (\<forall>x. EvStubbed x \<notin> set tr)"

definition upgrade_inv :: "urun \<Rightarrow> bool" where
  "upgrade_inv r \<longleftrightarrow>
     (case pc r of
        AtLookup \<Rightarrow> loc_c r = None \<and> loc_cPolling r = None \<and> trace r = []
      | AtRegister \<Rightarrow>
          (\<exists>c cp. loc_c r = Some c \<and> loc_cPolling r = Some cp) \<and> no_stub (trace r)
          \<and> (\<forall>c. loc_c r = Some c \<longrightarrow> upgradedC (heap (srv r) c) \<longrightarrow> EvProbeAck c \<in> set (trace r))
      | AtAwait \<Rightarrow>
          (\<exists>c cp. loc_c r = Some c \<and> loc_cPolling r = Some cp) \<and> no_stub (trace r)
          \<and> (\<forall>c. loc_c r = Some c \<longrightarrow> upgradedC (heap (srv r) c) \<longrightarrow> EvProbeAck c \<in> set (trace r))
      | AtStub \<Rightarrow>
          (\<exists>c cp. loc_c r = Some c \<and> loc_cPolling r = Some cp \<and> signal_received c (trace r))
          \<and> no_stub (trace r)
      | Returned \<Rightarrow>
          (loc_c r = None \<and> trace r = [])
          \<or> (\<exists>c cp pre post. loc_c r = Some c \<and> loc_cPolling r = Some cp
                \<and> trace r = pre @ EvStubbed cp # post
                \<and> signal_received c pre \<and> no_stub pre \<and> no_stub post))"

text \<open>
  What every state of an upgrade started in \<open>s0\<close> for the session id \<open>sid\<close> over the
  connection \<open>cn\<close> satisfies: before the lookup the server is \<open>s0\<close>; the new channel, once
  it exists, has the header built for it; the old channel is the one registered for \<open>sid\<close>.
\<close>

definition upgrade_header_inv :: "connection \<Rightarrow> string \<Rightarrow> Server \<Rightarrow> urun \<Rightarrow> bool" where
  "upgrade_header_inv cn sid s0 r \<longleftrightarrow>
     (pc r = AtLookup \<longrightarrow> srv r = s0 \<and> loc_c r = None)
     \<and> (\<forall>c. loc_c r = Some c \<longrightarrow>
            connHeader (heap (srv r) c)
              = \<lparr>Sid = sid, Upgrades = [],
                 PingInterval = millis (pingInterval cn), PingTimeout = millis (pingTimeout cn)\<rparr>
            \<and> conn (heap (srv r) c) = cn)
     \<and> (\<forall>cp. loc_cPolling r = Some cp \<longrightarrow> sids s0 sid = Some cp)"

text \<open>A channel is stubbed only if it was so in \<open>s0\<close> or the trace has its stub event.\<close>

definition stub_traced :: "Server \<Rightarrow> urun \<Rightarrow> bool" where
  "stub_traced s0 r \<longleftrightarrow>
     (\<forall>y. stubbed (heap (srv r) y) \<longrightarrow> stubbed (heap s0 y) \<or> EvStubbed y \<in> set (trace r))"

section \<open>Example states\<close>

definition example_conn :: connection where
  "example_conn = \<lparr>kind = PollingConnection, pingInterval = 25000000000, pingTimeout = 60000000000\<rparr>"

definition example_ws :: connection where
  "example_ws = \<lparr>kind = WebsocketConnection, pingInterval = 30000000000, pingTimeout = 60000000000\<rparr>"

definition example_channel :: "string \<Rightarrow> bool \<Rightarrow> Channel" where
  "example_channel sid live =
     \<lparr>conn = example_conn, address = ''10.0.0.1:4000'', header = [],
      connHeader = \<lparr>Sid = sid, Upgrades = [''websocket''], PingInterval = 25000, PingTimeout = 60000\<rparr>,
      alive = live, outC = [], upgradedC = False, stubbed = False\<rparr>"

text \<open>
  Channels 1 and 2 carry the session id \<open>X\<close>, channel 3 the id \<open>Y\<close>, channel 4, not alive,
  the id \<open>Z\<close>; nothing is registered and no room exists.
\<close>

definition example_heap :: "chan \<Rightarrow> Channel" where
  "example_heap =
     (\<lambda>_. example_channel [] False)
       (1 := example_channel ''X'' True, 2 := example_channel ''X'' True,
        3 := example_channel ''Y'' True, 4 := example_channel ''Z'' False)"

definition example_empty :: Server where
  "example_empty =
     \<lparr>channels = Map.empty, rooms = Map.empty, sids = Map.empty, heap = example_heap, brk = 5\<rparr>"

text \<open>
  Channels 1, 3 and 4 are registered; the room \<open>lobby\<close> has the members 1, 3 and 4, the room
  \<open>solo\<close> the member 1.
\<close>

definition example_rooms :: Server where
  "example_rooms =
     \<lparr>channels = [''lobby'' \<mapsto> {|1, 3, 4|}, ''solo'' \<mapsto> {|1|}],
      rooms = [1 \<mapsto> {|''lobby'', ''solo''|}, 3 \<mapsto> {|''lobby''|}, 4 \<mapsto> {|''lobby''|}],
      sids = [''X'' \<mapsto> 1, ''Y'' \<mapsto> 3, ''Z'' \<mapsto> 4],
      heap = example_heap, brk = 5\<rparr>"

definition example_marshal :: "connectionHeader \<Rightarrow> error + string" where
  "example_marshal h = Inr (''{sid:'' @ Sid h @ ''}'')"

definition example_encode :: "Message \<Rightarrow> string" where
  "example_encode m = (case Type m of MessageTypeOpen \<Rightarrow> ''0'' @ Args m | MessageTypeEmpty \<Rightarrow> ''6'')"

text \<open>
  An upgrade of the session \<open>X\<close> of \<open>example_rooms\<close> to a websocket connection: the function
  looks channel 1 up and builds channel 5, registers it, the inbound loop of channel 5 fires
  the signal, the function receives it and stubs channel 1.
\<close>

definition example_upgrade :: urun where
  "example_upgrade =
     setupUpgradeEventLoop example_ws ''10.0.0.1:5000'' [] ''X''
       [Orchestrator, Orchestrator, InLoop, Orchestrator, Orchestrator] example_rooms"

section \<open>Helper facts\<close>

lemma Channel_Id_update [simp]:
  "Channel_Id (s\<lparr>channels := f\<rparr>) c = Channel_Id s c"
  "Channel_Id (s\<lparr>rooms := g\<rparr>) c = Channel_Id s c"
  "Channel_Id (s\<lparr>sids := h\<rparr>) c = Channel_Id s c"
  by (simp_all add: Channel_Id_def)

lemma example_heap_simps [simp]:
  "example_heap 1 = example_channel ''X'' True"
  "example_heap (Suc 0) = example_channel ''X'' True"
  "example_heap 2 = example_channel ''X'' True"
  "example_heap 3 = example_channel ''Y'' True"
  "example_heap 4 = example_channel ''Z'' False"
  by (simp_all add: example_heap_def)

lemma example_channel_simps [simp]:
  "Sid (connHeader (example_channel sid live)) = sid"
  "alive (example_channel sid live) = live"
  "outC (example_channel sid live) = []"
  "upgradedC (example_channel sid live) = False"
  "stubbed (example_channel sid live) = False"
  by (simp_all add: example_channel_def)

section \<open>Session registry: lookup and teardown\<close>

text \<open>
  C3. \<open>GetChannel(sid)\<close> returns the registered channel when \<open>sids\<close> has an entry for \<open>sid\<close>;
  it returns \<open>ErrorConnectionNotFound\<close>, and no channel, exactly when there is no entry; no
  other error is returned and the server is left as it was.
\<close>

theorem GetChannel_lookup:
  "(\<forall>c. sids s sid = Some c \<longrightarrow> fst (GetChannel sid s) = Inr c)
   \<and> (fst (GetChannel sid s) = Inl ErrorConnectionNotFound \<longleftrightarrow> sids s sid = None)
   \<and> (\<forall>e. fst (GetChannel sid s) = Inl e \<longrightarrow> e = ErrorConnectionNotFound)
   \<and> snd (GetChannel sid s) = s"
  by (cases "sids s sid") (simp_all add: GetChannel_def)

theorem GetChannel_lookup_witness:
  "sids example_rooms ''Y'' = Some 3
   \<and> fst (GetChannel ''Y'' example_rooms) = Inr 3
   \<and> sids example_rooms ''Q'' = None
   \<and> fst (GetChannel ''Q'' example_rooms) = Inl ErrorConnectionNotFound
   \<and> snd (GetChannel ''Q'' example_rooms) = example_rooms"
proof -
  have y: "sids example_rooms ''Y'' = Some 3" by (simp add: example_rooms_def)
  have q: "sids example_rooms ''Q'' = None" by (simp add: example_rooms_def)
  from y q GetChannel_lookup [of example_rooms "''Y''"] GetChannel_lookup [of example_rooms "''Q''"]
  show ?thesis by simp
qed

text \<open>
  C1, as the code has it. The session id \<open>X\<close> is registered to channel 1 and then to channel
  2. Before the teardown of channel 1 \<open>GetChannel\<close> returns channel 2; after it the entry is
  gone and \<open>GetChannel\<close> fails: the entry that pointed at channel 2 was removed.
\<close>

theorem onDisconnection_superseded_counterexample:
  "fst (GetChannel ''X'' (onConnection 2 (onConnection 1 example_empty))) = Inr 2
   \<and> fst (GetChannel ''X'' (onDisconnection [] 1 (onConnection 2 (onConnection 1 example_empty))))
       = Inl ErrorConnectionNotFound
   \<and> fst (GetChannel ''X'' (onDisconnection [] 1 (onConnection 2 (onConnection 1 example_empty))))
       \<noteq> Inr 2"
  by (simp add: GetChannel_def onDisconnection_def onConnection_def example_empty_def
      Channel_Id_def)

text \<open>
  C1, amended. The teardown of a channel removes the registry entry of that channel's
  session id whichever channel the entry points at, so that \<open>GetChannel\<close> of this id fails
  afterwards; the entries of all other session ids stay as they were.
\<close>

theorem onDisconnection_unregisters_id:
  "fst (GetChannel (Channel_Id s c) (onDisconnection order c s)) = Inl ErrorConnectionNotFound
   \<and> (\<forall>sid. sid \<noteq> Channel_Id s c \<longrightarrow> sids (onDisconnection order c s) sid = sids s sid)"
proof (cases "rooms s c")
  case None
  then show ?thesis by (simp add: GetChannel_def onDisconnection_def)
next
  case (Some r)
  then show ?thesis by (simp add: GetChannel_def onDisconnection_def)
qed

theorem onDisconnection_unregisters_id_witness:
  "''Y'' \<noteq> Channel_Id example_rooms 1
   \<and> fst (GetChannel ''X'' (onDisconnection [''lobby'', ''solo''] 1 example_rooms))
       = Inl ErrorConnectionNotFound
   \<and> sids (onDisconnection [''lobby'', ''solo''] 1 example_rooms) ''Y'' = Some 3"
proof -
  have i: "Channel_Id example_rooms 1 = ''X''"
    by (simp add: Channel_Id_def example_rooms_def)
  have y: "sids example_rooms ''Y'' = Some 3" by (simp add: example_rooms_def)
  from i y onDisconnection_unregisters_id [of example_rooms 1 "[''lobby'', ''solo'']"]
  show ?thesis by simp
qed

section \<open>Room index: teardown keeps it consistent\<close>

lemma pruned_idem: "pruned c (pruned c e) = pruned c e"
  by (cases e) (simp_all add: pruned_def)

lemma leaveRooms_apply:
  "leaveRooms c order chs room =
     (if room \<in> set order then pruned c (chs room) else chs room)"
proof (induction order arbitrary: chs)
  case Nil
  show ?case by simp
next
  case (Cons r rest)
  let ?chs' = "(case chs r of
                  None \<Rightarrow> chs
                | Some curRoom \<Rightarrow>
                    (let curRoom' = curRoom |-| {|c|}
                     in if fcard curRoom' = 0 then chs(r := None) else chs(r \<mapsto> curRoom')))"
  have step: "?chs' x = (if x = r then pruned c (chs r) else chs x)" for x
    by (cases "chs r") (simp_all add: pruned_def Let_def)
  have "leaveRooms c (r # rest) chs room = leaveRooms c rest ?chs' room"
    by simp
  also have "\<dots> = (if room \<in> set rest then pruned c (?chs' room) else ?chs' room)"
    by (rule Cons.IH)
  also have "\<dots> = (if room \<in> set (r # rest) then pruned c (chs room) else chs room)"
    by (simp add: step pruned_idem)
  finally show ?case .
qed

lemma membersOf_pruned:
  "(case pruned c e of None \<Rightarrow> {||} | Some m \<Rightarrow> m) = (case e of None \<Rightarrow> {||} | Some m \<Rightarrow> m) |-| {|c|}"
  by (cases e) (auto simp: pruned_def)

lemma pruned_absent:
  assumes "e \<noteq> Some {||}" and "c |\<notin>| (case e of None \<Rightarrow> {||} | Some m \<Rightarrow> m)"
  shows "pruned c e = e"
proof (cases e)
  case None
  then show ?thesis by (simp add: pruned_def)
next
  case (Some m)
  with assms have "m |-| {|c|} = m" and "m \<noteq> {||}" by auto
  with Some show ?thesis by (simp add: pruned_def)
qed

lemma onDisconnection_no_rooms:
  assumes "rooms s c = None"
  shows "channels (onDisconnection order c s) = channels s"
    and "rooms (onDisconnection order c s) = rooms s"
  using assms by (simp_all add: onDisconnection_def)

lemma onDisconnection_rooms:
  assumes "rooms s c = Some rs"
  shows "channels (onDisconnection order c s) = leaveRooms c order (channels s)"
    and "rooms (onDisconnection order c s) = (rooms s)(c := None)"
  using assms by (simp_all add: onDisconnection_def)

lemma onDisconnection_index:
  assumes inv: "room_inv s"
    and ord: "\<forall>rs. rooms s c = Some rs \<longrightarrow> enumerates order rs"
  shows "channels (onDisconnection order c s) room = pruned c (channels s room)"
    and "rooms (onDisconnection order c s) = (rooms s)(c := None)"
proof -
  have nonempty: "channels s room \<noteq> Some {||}"
    using inv by (simp add: room_inv_def)
  have mem: "c |\<in>| membersOf s room \<longleftrightarrow> room |\<in>| roomsOf s c"
    using inv by (simp add: room_inv_def)
  show "channels (onDisconnection order c s) room = pruned c (channels s room)"
  proof (cases "rooms s c")
    case None
    then have "c |\<notin>| membersOf s room" using mem by (simp add: roomsOf_def)
    then have "pruned c (channels s room) = channels s room"
      using nonempty by (intro pruned_absent) (simp_all add: membersOf_def)
    with None show ?thesis by (simp add: onDisconnection_no_rooms)
  next
    case (Some rs)
    with ord have rs: "fset_of_list order = rs" by (simp add: enumerates_def)
    show ?thesis
    proof (cases "room \<in> set order")
      case True
      with Some show ?thesis by (simp add: onDisconnection_rooms leaveRooms_apply)
    next
      case False
      with rs have "room |\<notin>| rs" by (auto simp: fset_of_list_elem)
      with Some have "c |\<notin>| membersOf s room" using mem by (simp add: roomsOf_def)
      then have "pruned c (channels s room) = channels s room"
        using nonempty by (intro pruned_absent) (simp_all add: membersOf_def)
      with Some False show ?thesis by (simp add: onDisconnection_rooms leaveRooms_apply)
    qed
  qed
  show "rooms (onDisconnection order c s) = (rooms s)(c := None)"
  proof (cases "rooms s c")
    case None
    then have "(rooms s)(c := None) = rooms s" by (simp add: fun_upd_idem)
    with None show ?thesis by (simp add: onDisconnection_no_rooms)
  next
    case (Some rs)
    then show ?thesis by (simp add: onDisconnection_rooms)
  qed
qed

text \<open>
  C9. In a state whose room index is consistent, the teardown of channel \<open>c\<close>, visiting the
  rooms of \<open>c\<close> in any order, leaves the index consistent; \<open>c\<close> is then no key of \<open>rooms\<close>
  and no member of any room; every room whose only member was \<open>c\<close> has lost its key; the
  other channels keep their rooms.
\<close>

theorem onDisconnection_room_inv:
  assumes inv: "room_inv s"
    and ord: "\<forall>rs. rooms s c = Some rs \<longrightarrow> enumerates order rs"
  shows "room_inv (onDisconnection order c s)
         \<and> rooms (onDisconnection order c s) c = None
         \<and> (\<forall>room. c |\<notin>| membersOf (onDisconnection order c s) room)
         \<and> (\<forall>room. channels s room = Some {|c|} \<longrightarrow> channels (onDisconnection order c s) room = None)
         \<and> (\<forall>room. membersOf (onDisconnection order c s) room = membersOf s room |-| {|c|})
         \<and> (\<forall>x. x \<noteq> c \<longrightarrow> rooms (onDisconnection order c s) x = rooms s x)"
proof -
  let ?s' = "onDisconnection order c s"
  have ch: "channels ?s' room = pruned c (channels s room)" for room
    using inv ord by (rule onDisconnection_index(1))
  have rm: "rooms ?s' = (rooms s)(c := None)"
    using inv ord by (rule onDisconnection_index(2))
  have members: "membersOf ?s' room = membersOf s room |-| {|c|}" for room
    by (simp add: membersOf_def ch membersOf_pruned)
  have roomsOf': "roomsOf ?s' x = (if x = c then {||} else roomsOf s x)" for x
    by (simp add: roomsOf_def rm)
  have mem: "x |\<in>| membersOf s room \<longleftrightarrow> room |\<in>| roomsOf s x" for x room
    using inv by (simp add: room_inv_def)
  have agree: "x |\<in>| membersOf ?s' room \<longleftrightarrow> room |\<in>| roomsOf ?s' x" for x room
    by (simp add: members roomsOf' mem)
  have nonempty: "channels ?s' room \<noteq> Some {||}" for room
    by (cases "channels s room") (simp_all add: ch pruned_def)
  have "room_inv ?s'"
    unfolding room_inv_def using agree nonempty by blast
  moreover have "rooms ?s' c = None" by (simp add: rm)
  moreover have "\<forall>room. c |\<notin>| membersOf ?s' room" by (simp add: members)
  moreover have "\<forall>room. channels s room = Some {|c|} \<longrightarrow> channels ?s' room = None"
    by (simp add: ch pruned_def)
  moreover have "\<forall>room. membersOf ?s' room = membersOf s room |-| {|c|}"
    by (simp add: members)
  moreover have "\<forall>x. x \<noteq> c \<longrightarrow> rooms ?s' x = rooms s x" by (simp add: rm)
  ultimately show ?thesis by blast
qed

lemma example_rooms_inv: "room_inv example_rooms"
proof -
  have m: "membersOf example_rooms room =
             (if room = ''solo'' then {|1|} else if room = ''lobby'' then {|1, 3, 4|} else {||})" for room
    by (simp add: membersOf_def example_rooms_def)
  have r: "roomsOf example_rooms c =
             (if c = 4 then {|''lobby''|} else if c = 3 then {|''lobby''|}
              else if c = 1 then {|''lobby'', ''solo''|} else {||})" for c
    by (simp add: roomsOf_def example_rooms_def)
  have e: "channels example_rooms room \<noteq> Some {||}" for room
    by (simp add: example_rooms_def)
  show ?thesis
    unfolding room_inv_def by (auto simp: m r e)
qed

theorem onDisconnection_room_inv_witness:
  "room_inv example_rooms
   \<and> rooms example_rooms 1 = Some {|''lobby'', ''solo''|}
   \<and> enumerates [''solo'', ''lobby''] {|''lobby'', ''solo''|}
   \<and> room_inv (onDisconnection [''solo'', ''lobby''] 1 example_rooms)
   \<and> rooms (onDisconnection [''solo'', ''lobby''] 1 example_rooms) 1 = None
   \<and> channels (onDisconnection [''solo'', ''lobby''] 1 example_rooms) ''solo'' = None
   \<and> membersOf (onDisconnection [''solo'', ''lobby''] 1 example_rooms) ''lobby'' = {|3, 4|}"
proof -
  have rs: "rooms example_rooms 1 = Some {|''lobby'', ''solo''|}"
    by (simp add: example_rooms_def)
  have en: "enumerates [''solo'', ''lobby''] {|''lobby'', ''solo''|}"
    by (auto simp: enumerates_def)
  have ord: "\<forall>rs. rooms example_rooms 1 = Some rs \<longrightarrow> enumerates [''solo'', ''lobby''] rs"
    using rs en by simp
  have solo: "channels example_rooms ''solo'' = Some {|1|}"
    by (simp add: example_rooms_def)
  have lobby: "membersOf example_rooms ''lobby'' |-| {|1|} = {|3, 4|}"
    by (auto simp: membersOf_def example_rooms_def)
  from onDisconnection_room_inv [OF example_rooms_inv ord] rs en solo lobby example_rooms_inv
  show ?thesis by simp
qed

section \<open>Room queries and broadcast: results\<close>

lemma List_loop_fills:
  "i + length order \<le> length cp \<Longrightarrow>
   List_loop order i cp = Inr (take i cp @ order @ drop (i + length order) cp)"
proof (induction order arbitrary: i cp)
  case Nil
  then show ?case by simp
next
  case (Cons x rest)
  from Cons.prems have i: "i < length cp" and le: "Suc i + length rest \<le> length (cp[i := x])"
    by simp_all
  have "List_loop (x # rest) i cp = List_loop rest (Suc i) (cp[i := x])"
    using i by simp
  also have "\<dots> = Inr (take (Suc i) (cp[i := x]) @ rest @ drop (Suc i + length rest) (cp[i := x]))"
    using le by (rule Cons.IH)
  also have "take (Suc i) (cp[i := x]) = take i cp @ [x]"
    using i by (simp add: take_Suc_conv_app_nth)
  also have "drop (Suc i + length rest) (cp[i := x]) = drop (i + length (x # rest)) cp"
    by simp
  finally show ?case by simp
qed

lemma enumerates_length: "enumerates xs A \<Longrightarrow> length xs = fcard A"
  by (auto simp: enumerates_def fcard.rep_eq fset_of_list.rep_eq distinct_card)

text \<open>
  C10. For a room with no entry \<open>Amount\<close> is 0 and \<open>List\<close> is the empty slice, with no
  panic. For a room with an entry \<open>Amount\<close> is the number of its members and \<open>List\<close>
  returns, with no panic, a slice holding each member once and nothing else: the members in
  the order the loop visited them.
\<close>

theorem Amount_List_room:
  "(channels s room = None \<longrightarrow> Amount room s = 0 \<and> List order room s = Inr [])
   \<and> (\<forall>m. channels s room = Some m \<longrightarrow> Amount room s = int (fcard m))
   \<and> (\<forall>m. channels s room = Some m \<and> enumerates order m \<longrightarrow>
         (\<exists>xs. List order room s = Inr xs \<and> fset_of_list xs = m \<and> distinct xs
               \<and> length xs = fcard m \<and> xs = order))"
proof (cases "channels s room")
  case None
  then show ?thesis by (simp add: Amount_def List_def)
next
  case (Some m)
  have "List order room s = Inr order" if en: "enumerates order m"
  proof -
    have len: "length order = fcard m" using en by (rule enumerates_length)
    then have "0 + length order \<le> length (replicate (fcard m) nil)" by simp
    then have "List_loop order 0 (replicate (fcard m) nil)
               = Inr (take 0 (replicate (fcard m) nil) @ order
                      @ drop (0 + length order) (replicate (fcard m) nil))"
      by (rule List_loop_fills)
    with len Some show ?thesis by (simp add: List_def)
  qed
  moreover have "fset_of_list order = m \<and> distinct order \<and> length order = fcard m"
    if en: "enumerates order m"
    using en enumerates_length [OF en] by (simp add: enumerates_def)
  ultimately show ?thesis using Some by (simp add: Amount_def)
qed

theorem Amount_List_room_witness:
  "channels example_rooms ''attic'' = None
   \<and> Amount ''attic'' example_rooms = 0
   \<and> List [] ''attic'' example_rooms = Inr []
   \<and> channels example_rooms ''lobby'' = Some {|1, 3, 4|}
   \<and> enumerates [3, 1, 4] ({|1, 3, 4|} :: chan fset)
   \<and> Amount ''lobby'' example_rooms = 3
   \<and> List [3, 1, 4] ''lobby'' example_rooms = Inr [3, 1, 4]"
proof -
  have a: "channels example_rooms ''attic'' = None" by (simp add: example_rooms_def)
  have l: "channels example_rooms ''lobby'' = Some {|1, 3, 4|}" by (simp add: example_rooms_def)
  have en: "enumerates [3, 1, 4] ({|1, 3, 4|} :: chan fset)" by (auto simp: enumerates_def)
  have card: "fcard ({|1, 3, 4|} :: chan fset) = 3"
    using enumerates_length [OF en] by simp
  from a l en card Amount_List_room [of example_rooms "''attic''" "[]"]
    Amount_List_room [of example_rooms "''lobby''" "[3, 1, 4]"]
  show ?thesis by simp
qed

lemma BroadcastTo_loop_set:
  "set (BroadcastTo_loop s order method payload)
     = {(cn, method, payload) | cn. cn \<in> set order \<and> IsAlive s cn}"
  by (induction order) auto

lemma BroadcastTo_loop_targets:
  "map fst (BroadcastTo_loop s order method payload) = filter (IsAlive s) order"
  by (induction order) simp_all

text \<open>
  C4. \<open>BroadcastTo(room, method, payload)\<close>, visiting the members of the room in any order,
  dispatches \<open>Emit(method, payload)\<close> to exactly the members of the room that are alive,
  once each; a channel that is no member or is not alive gets nothing. For a room with no
  entry nothing is dispatched.
\<close>

theorem BroadcastTo_alive_members:
  assumes ord: "\<forall>m. channels s room = Some m \<longrightarrow> enumerates order m"
  shows "set (BroadcastTo order room method payload s)
           = {(cn, method, payload) | cn. cn |\<in>| membersOf s room \<and> IsAlive s cn}
         \<and> distinct (map fst (BroadcastTo order room method payload s))
         \<and> (\<forall>cn. cn |\<notin>| membersOf s room \<or> \<not> IsAlive s cn
               \<longrightarrow> cn \<notin> fst ` set (BroadcastTo order room method payload s))
         \<and> (channels s room = None \<longrightarrow> BroadcastTo order room method payload s = [])"
proof (cases "channels s room")
  case None
  then show ?thesis by (simp add: BroadcastTo_def membersOf_def)
next
  case (Some m)
  with ord have en: "enumerates order m" by simp
  then have mem: "cn \<in> set order \<longleftrightarrow> cn |\<in>| m" for cn
    by (auto simp: enumerates_def fset_of_list_elem)
  have b: "BroadcastTo order room method payload s = BroadcastTo_loop s order method payload"
    using Some by (simp add: BroadcastTo_def)
  have m: "membersOf s room = m" using Some by (simp add: membersOf_def)
  have "set (BroadcastTo order room method payload s)
          = {(cn, method, payload) | cn. cn |\<in>| membersOf s room \<and> IsAlive s cn}"
    by (simp add: b m BroadcastTo_loop_set mem)
  moreover have "distinct (map fst (BroadcastTo order room method payload s))"
    using en by (simp add: b BroadcastTo_loop_targets enumerates_def)
  moreover have "\<forall>cn. cn |\<notin>| membersOf s room \<or> \<not> IsAlive s cn
               \<longrightarrow> cn \<notin> fst ` set (BroadcastTo order room method payload s)"
    by (auto simp: b m BroadcastTo_loop_set mem)
  ultimately show ?thesis using Some by simp
qed

theorem BroadcastTo_alive_members_witness:
  "channels example_rooms ''lobby'' = Some {|1, 3, 4|}
   \<and> enumerates [4, 3, 1] ({|1, 3, 4|} :: chan fset)
   \<and> BroadcastTo [4, 3, 1] ''lobby'' ''chat'' ''hi'' example_rooms
       = [(3, ''chat'', ''hi''), (1, ''chat'', ''hi'')]
   \<and> set (BroadcastTo [4, 3, 1] ''lobby'' ''chat'' ''hi'' example_rooms)
       = {(cn, ''chat'', ''hi'') | cn. cn |\<in>| membersOf example_rooms ''lobby'' \<and> IsAlive example_rooms cn}
   \<and> channels example_rooms ''attic'' = None
   \<and> BroadcastTo [] ''attic'' ''chat'' ''hi'' example_rooms = []"
proof -
  have l: "channels example_rooms ''lobby'' = Some {|1, 3, 4|}" by (simp add: example_rooms_def)
  have a: "channels example_rooms ''attic'' = None" by (simp add: example_rooms_def)
  have en: "enumerates [4, 3, 1] ({|1, 3, 4|} :: chan fset)" by (auto simp: enumerates_def)
  have ord: "\<forall>m. channels example_rooms ''lobby'' = Some m \<longrightarrow> enumerates [4, 3, 1] m"
    using l en by simp
  have ord': "\<forall>m. channels example_rooms ''attic'' = Some m \<longrightarrow> enumerates [] m"
    using a by simp
  have run: "BroadcastTo [4, 3, 1] ''lobby'' ''chat'' ''hi'' example_rooms
               = [(3, ''chat'', ''hi''), (1, ''chat'', ''hi'')]"
    by (simp add: BroadcastTo_def IsAlive_def example_rooms_def)
  from BroadcastTo_alive_members [OF ord, of "''chat''" "''hi''"]
    BroadcastTo_alive_members [OF ord', of "''chat''" "''hi''"] l a en run
  show ?thesis by simp
qed

section \<open>Handshake: the open sequence\<close>

lemma new_Channel_fst: "fst (new_Channel cn addr hdr connHdr s) = brk s"
  by (simp add: new_Channel_def)

lemma new_Channel_heap:
  "heap (snd (new_Channel cn addr hdr connHdr s)) (brk s)
     = \<lparr>conn = cn, address = addr, header = hdr, connHeader = connHdr,
        alive = True, outC = [], upgradedC = False, stubbed = False\<rparr>"
  by (simp add: new_Channel_def init_def)

lemma new_Channel_maps:
  "channels (snd (new_Channel cn addr hdr connHdr s)) = channels s"
  "rooms (snd (new_Channel cn addr hdr connHdr s)) = rooms s"
  "sids (snd (new_Channel cn addr hdr connHdr s)) = sids s"
  "brk (snd (new_Channel cn addr hdr connHdr s)) = Suc (brk s)"
  by (simp_all add: new_Channel_def)

lemma new_Channel_heap_other:
  "x \<noteq> brk s \<Longrightarrow> heap (snd (new_Channel cn addr hdr connHdr s)) x = heap s x"
  by (simp add: new_Channel_def)

lemma sendOpenSequence_ok:
  assumes "marshal (connHeader (heap s c)) = Inr jsonHdr"
  shows "sendOpenSequence marshal MustEncode c s
           = (Inr (),
              s\<lparr>heap := (heap s)(c := (heap s c)\<lparr>outC := outC (heap s c)
                   @ [MustEncode \<lparr>Type = MessageTypeOpen, Args = jsonHdr\<rparr>,
                      MustEncode \<lparr>Type = MessageTypeEmpty, Args = []\<rparr>]\<rparr>)\<rparr>)"
  using assms by (simp add: sendOpenSequence_def send_outC_def)

lemma sendOpenSequence_fail:
  assumes "marshal (connHeader (heap s c)) = Inl err"
  shows "sendOpenSequence marshal MustEncode c s = (Inl (Panic err), s)"
  using assms by (simp add: sendOpenSequence_def)

lemma setupEventLoop_unfold:
  "setupEventLoop marshal MustEncode sid cn addr hdr s =
     (case sendOpenSequence marshal MustEncode (brk s)
             (snd (new_Channel cn addr hdr
                \<lparr>Sid = sid, Upgrades = [''websocket''],
                 PingInterval = millis (pingInterval cn), PingTimeout = millis (pingTimeout cn)\<rparr> s)) of
        (Inl p, s2) \<Rightarrow> (Inl p, s2)
      | (Inr u, s2) \<Rightarrow> (Inr (brk s), onConnection (brk s) s2))"
  by (simp add: setupEventLoop_def PingParams_def new_Channel_def)

text \<open>
  C5. When the connection header of channel \<open>c\<close> serializes to \<open>jsonHdr\<close>, the open sequence
  returns normally and changes nothing but the outbound queue of \<open>c\<close>, to which it appends
  two frames: the encoded open message carrying \<open>jsonHdr\<close>, then the encoded empty message.
  In a fresh connection the queue of the new channel then holds exactly these two frames.
\<close>

theorem sendOpenSequence_two_frames:
  "(marshal (connHeader (heap s c)) = Inr jsonHdr \<longrightarrow>
      sendOpenSequence marshal MustEncode c s
        = (Inr (),
           s\<lparr>heap := (heap s)(c := (heap s c)\<lparr>outC := outC (heap s c)
                @ [MustEncode \<lparr>Type = MessageTypeOpen, Args = jsonHdr\<rparr>,
                   MustEncode \<lparr>Type = MessageTypeEmpty, Args = []\<rparr>]\<rparr>)\<rparr>))
   \<and> (marshal \<lparr>Sid = sid, Upgrades = [''websocket''],
                 PingInterval = millis (pingInterval cn), PingTimeout = millis (pingTimeout cn)\<rparr>
          = Inr jsonHdr \<longrightarrow>
        fst (setupEventLoop marshal MustEncode sid cn addr hdr s) = Inr (brk s)
        \<and> outC (heap (snd (setupEventLoop marshal MustEncode sid cn addr hdr s)) (brk s))
            = [MustEncode \<lparr>Type = MessageTypeOpen, Args = jsonHdr\<rparr>,
               MustEncode \<lparr>Type = MessageTypeEmpty, Args = []\<rparr>])"
proof -
  let ?H = "\<lparr>Sid = sid, Upgrades = [''websocket''],
             PingInterval = millis (pingInterval cn), PingTimeout = millis (pingTimeout cn)\<rparr>"
  let ?s1 = "snd (new_Channel cn addr hdr ?H s)"
  have fresh: "fst (setupEventLoop marshal MustEncode sid cn addr hdr s) = Inr (brk s)
        \<and> outC (heap (snd (setupEventLoop marshal MustEncode sid cn addr hdr s)) (brk s))
            = [MustEncode \<lparr>Type = MessageTypeOpen, Args = jsonHdr\<rparr>,
               MustEncode \<lparr>Type = MessageTypeEmpty, Args = []\<rparr>]"
    if ok: "marshal ?H = Inr jsonHdr"
  proof -
    have "marshal (connHeader (heap ?s1 (brk s))) = Inr jsonHdr"
      using ok by (simp add: new_Channel_heap)
    then have "sendOpenSequence marshal MustEncode (brk s) ?s1
           = (Inr (),
              ?s1\<lparr>heap := (heap ?s1)(brk s := (heap ?s1 (brk s))\<lparr>outC := outC (heap ?s1 (brk s))
                   @ [MustEncode \<lparr>Type = MessageTypeOpen, Args = jsonHdr\<rparr>,
                      MustEncode \<lparr>Type = MessageTypeEmpty, Args = []\<rparr>]\<rparr>)\<rparr>)"
      by (rule sendOpenSequence_ok)
    then show ?thesis
      by (simp add: setupEventLoop_unfold onConnection_def new_Channel_heap)
  qed
  show ?thesis using sendOpenSequence_ok [of marshal s c jsonHdr MustEncode] fresh by blast
qed

theorem sendOpenSequence_two_frames_witness:
  "example_marshal (connHeader (heap example_rooms 3)) = Inr ''{sid:Y}''
   \<and> sendOpenSequence example_marshal example_encode 3 example_rooms
       = (Inr (), example_rooms\<lparr>heap := (heap example_rooms)
            (3 := (heap example_rooms 3)\<lparr>outC := [''0{sid:Y}'', ''6'']\<rparr>)\<rparr>)
   \<and> example_marshal \<lparr>Sid = ''abc123'', Upgrades = [''websocket''],
         PingInterval = millis (pingInterval example_conn),
         PingTimeout = millis (pingTimeout example_conn)\<rparr> = Inr ''{sid:abc123}''
   \<and> outC (heap (snd (setupEventLoop example_marshal example_encode ''abc123'' example_conn
                        ''10.0.0.9:1'' [] example_rooms)) 5)
       = [''0{sid:abc123}'', ''6'']"
proof -
  have m: "example_marshal (connHeader (heap example_rooms 3)) = Inr ''{sid:Y}''"
    by (simp add: example_marshal_def example_rooms_def)
  have m': "example_marshal \<lparr>Sid = ''abc123'', Upgrades = [''websocket''],
         PingInterval = millis (pingInterval example_conn),
         PingTimeout = millis (pingTimeout example_conn)\<rparr> = Inr ''{sid:abc123}''"
    by (simp add: example_marshal_def)
  have q: "outC (heap example_rooms 3) = []" and b: "brk example_rooms = 5"
    by (simp_all add: example_rooms_def)
  have e: "example_encode \<lparr>Type = MessageTypeOpen, Args = j\<rparr> = ''0'' @ j"
    "example_encode \<lparr>Type = MessageTypeEmpty, Args = j\<rparr> = ''6''" for j
    by (simp_all add: example_encode_def)
  from m m' q b e
    sendOpenSequence_two_frames [of example_marshal example_rooms 3 "''{sid:Y}''" example_encode
      "''abc123''" example_conn "''10.0.0.9:1''" "[]"]
    sendOpenSequence_two_frames [of example_marshal example_rooms 3 "''{sid:abc123}''"
      example_encode "''abc123''" example_conn "''10.0.0.9:1''" "[]"]
  show ?thesis by simp
qed

text \<open>
  C6. When the serialization of the connection header fails with \<open>err\<close>, the open sequence
  panics with \<open>err\<close> and leaves the server as it was: no frame is enqueued. The fresh
  connection then ends in that panic with an empty queue for the new channel and an
  unchanged registry. When the serialization succeeds the open sequence does not panic.
\<close>

theorem sendOpenSequence_panic_iff:
  "(marshal (connHeader (heap s c)) = Inl err \<longrightarrow>
      sendOpenSequence marshal MustEncode c s = (Inl (Panic err), s))
   \<and> (marshal (connHeader (heap s c)) = Inr jsonHdr \<longrightarrow>
        fst (sendOpenSequence marshal MustEncode c s) = Inr ())
   \<and> ((\<exists>p. fst (sendOpenSequence marshal MustEncode c s) = Inl p)
        \<longleftrightarrow> (\<exists>e. marshal (connHeader (heap s c)) = Inl e))
   \<and> (marshal \<lparr>Sid = sid, Upgrades = [''websocket''],
                 PingInterval = millis (pingInterval cn), PingTimeout = millis (pingTimeout cn)\<rparr>
          = Inl err \<longrightarrow>
        fst (setupEventLoop marshal MustEncode sid cn addr hdr s) = Inl (Panic err)
        \<and> outC (heap (snd (setupEventLoop marshal MustEncode sid cn addr hdr s)) (brk s)) = []
        \<and> sids (snd (setupEventLoop marshal MustEncode sid cn addr hdr s)) = sids s)"
proof -
  let ?H = "\<lparr>Sid = sid, Upgrades = [''websocket''],
             PingInterval = millis (pingInterval cn), PingTimeout = millis (pingTimeout cn)\<rparr>"
  let ?s1 = "snd (new_Channel cn addr hdr ?H s)"
  have iff: "(\<exists>p. fst (sendOpenSequence marshal MustEncode c s) = Inl p)
        \<longleftrightarrow> (\<exists>e. marshal (connHeader (heap s c)) = Inl e)"
    by (cases "marshal (connHeader (heap s c))") (simp_all add: sendOpenSequence_def)
  have fresh: "fst (setupEventLoop marshal MustEncode sid cn addr hdr s) = Inl (Panic err)
        \<and> outC (heap (snd (setupEventLoop marshal MustEncode sid cn addr hdr s)) (brk s)) = []
        \<and> sids (snd (setupEventLoop marshal MustEncode sid cn addr hdr s)) = sids s"
    if bad: "marshal ?H = Inl err"
  proof -
    have "marshal (connHeader (heap ?s1 (brk s))) = Inl err"
      using bad by (simp add: new_Channel_heap)
    then have "sendOpenSequence marshal MustEncode (brk s) ?s1 = (Inl (Panic err), ?s1)"
      by (rule sendOpenSequence_fail)
    then show ?thesis
      by (simp add: setupEventLoop_unfold new_Channel_heap new_Channel_maps)
  qed
  have ok: "fst (sendOpenSequence marshal MustEncode c s) = Inr ()"
    if "marshal (connHeader (heap s c)) = Inr jsonHdr"
    using that by (simp add: sendOpenSequence_def)
  show ?thesis
    using sendOpenSequence_fail [of marshal s c err MustEncode] ok iff fresh by blast
qed

theorem sendOpenSequence_panic_iff_witness:
  "(\<lambda>h. Inl (OtherError ''unsupported'')) (connHeader (heap example_rooms 3))
     = (Inl (OtherError ''unsupported'') :: error + string)
   \<and> sendOpenSequence (\<lambda>h. Inl (OtherError ''unsupported'')) example_encode 3 example_rooms
       = (Inl (Panic (OtherError ''unsupported'')), example_rooms)
   \<and> example_marshal (connHeader (heap example_rooms 3)) = Inr ''{sid:Y}''
   \<and> fst (sendOpenSequence example_marshal example_encode 3 example_rooms) = Inr ()
   \<and> fst (setupEventLoop (\<lambda>h. Inl (OtherError ''unsupported'')) example_encode ''abc123''
            example_conn ''10.0.0.9:1'' [] example_rooms) = Inl (Panic (OtherError ''unsupported''))"
proof -
  have m: "example_marshal (connHeader (heap example_rooms 3)) = Inr ''{sid:Y}''"
    by (simp add: example_marshal_def example_rooms_def)
  from m
    sendOpenSequence_panic_iff [of "\<lambda>h. Inl (OtherError ''unsupported'')" example_rooms 3
      "OtherError ''unsupported''" example_encode "''{sid:Y}''" "''abc123''" example_conn
      "''10.0.0.9:1''" "[]"]
    sendOpenSequence_panic_iff [of example_marshal example_rooms 3
      "OtherError ''unsupported''" example_encode "''{sid:Y}''" "''abc123''" example_conn
      "''10.0.0.9:1''" "[]"]
  show ?thesis by simp
qed

section \<open>Transport upgrade: steps\<close>

lemma stub_simps [simp]:
  "channels (stub x s) = channels s" "rooms (stub x s) = rooms s"
  "sids (stub x s) = sids s" "brk (stub x s) = brk s"
  "connHeader (heap (stub x s) c) = connHeader (heap s c)"
  "conn (heap (stub x s) c) = conn (heap s c)"
  "upgradedC (heap (stub x s) c) = upgradedC (heap s c)"
  "stubbed (heap (stub x s) c) = (c = x \<or> stubbed (heap s c))"
  by (simp_all add: stub_def)

lemma fire_upgradedC_simps [simp]:
  "channels (fire_upgradedC x s) = channels s" "rooms (fire_upgradedC x s) = rooms s"
  "sids (fire_upgradedC x s) = sids s" "brk (fire_upgradedC x s) = brk s"
  "connHeader (heap (fire_upgradedC x s) c) = connHeader (heap s c)"
  "conn (heap (fire_upgradedC x s) c) = conn (heap s c)"
  "upgradedC (heap (fire_upgradedC x s) c) = (c = x \<or> upgradedC (heap s c))"
  "stubbed (heap (fire_upgradedC x s) c) = stubbed (heap s c)"
  by (simp_all add: fire_upgradedC_def)

lemma recv_upgradedC_simps [simp]:
  "channels (recv_upgradedC x s) = channels s" "rooms (recv_upgradedC x s) = rooms s"
  "sids (recv_upgradedC x s) = sids s" "brk (recv_upgradedC x s) = brk s"
  "connHeader (heap (recv_upgradedC x s) c) = connHeader (heap s c)"
  "conn (heap (recv_upgradedC x s) c) = conn (heap s c)"
  "upgradedC (heap (recv_upgradedC x s) c) = (c \<noteq> x \<and> upgradedC (heap s c))"
  "stubbed (heap (recv_upgradedC x s) c) = stubbed (heap s c)"
  by (simp_all add: recv_upgradedC_def)

lemma onConnection_simps [simp]:
  "channels (onConnection x s) = channels s" "rooms (onConnection x s) = rooms s"
  "heap (onConnection x s) = heap s" "brk (onConnection x s) = brk s"
  by (simp_all add: onConnection_def)

lemma ustep_lookup_fail:
  assumes "pc r = AtLookup" and "sids (srv r) sid = None"
  shows "ustep cn remoteAddr hdr sid Orchestrator r = r\<lparr>pc := Returned\<rparr>"
  using assms by (simp add: GetChannel_def)

lemma ustep_lookup_ok:
  assumes "pc r = AtLookup" and "sids (srv r) sid = Some cp"
  shows "ustep cn remoteAddr hdr sid Orchestrator r
           = r\<lparr>pc := AtRegister, loc_cPolling := Some cp, loc_c := Some (brk (srv r)),
               srv := snd (new_Channel cn remoteAddr hdr
                 \<lparr>Sid = sid, Upgrades = [],
                  PingInterval = millis (pingInterval cn), PingTimeout = millis (pingTimeout cn)\<rparr>
                 (srv r))\<rparr>"
  using assms by (simp add: GetChannel_def PingParams_def new_Channel_def)

lemma ustep_register:
  assumes "pc r = AtRegister" and "loc_c r = Some c"
  shows "ustep cn remoteAddr hdr sid Orchestrator r
           = r\<lparr>pc := AtAwait, srv := onConnection c (srv r), trace := trace r @ [EvRegistered c]\<rparr>"
  using assms by simp

lemma ustep_await_blocked:
  assumes "pc r = AtAwait" and "loc_c r = Some c" and "\<not> upgradedC (heap (srv r) c)"
  shows "ustep cn remoteAddr hdr sid Orchestrator r = r"
  using assms by simp

lemma ustep_await_received:
  assumes "pc r = AtAwait" and "loc_c r = Some c" and "upgradedC (heap (srv r) c)"
  shows "ustep cn remoteAddr hdr sid Orchestrator r
           = r\<lparr>pc := AtStub, srv := recv_upgradedC c (srv r), trace := trace r @ [EvReceived c]\<rparr>"
  using assms by simp

lemma ustep_stub:
  assumes "pc r = AtStub" and "loc_cPolling r = Some cp"
  shows "ustep cn remoteAddr hdr sid Orchestrator r
           = r\<lparr>pc := Returned, srv := stub cp (srv r), trace := trace r @ [EvStubbed cp]\<rparr>"
  using assms by simp

lemma ustep_returned:
  assumes "pc r = Returned"
  shows "ustep cn remoteAddr hdr sid Orchestrator r = r"
  using assms by simp

lemma ustep_inLoop:
  assumes "loc_c r = Some c"
  shows "ustep cn remoteAddr hdr sid InLoop r
           = r\<lparr>srv := fire_upgradedC c (srv r), trace := trace r @ [EvProbeAck c]\<rparr>"
  using assms by simp

lemma ustep_inLoop_none:
  assumes "loc_c r = None"
  shows "ustep cn remoteAddr hdr sid InLoop r = r"
  using assms by simp

lemma exec_invariant:
  assumes step: "\<And>a r. I r \<Longrightarrow> I (ustep cn remoteAddr hdr sid a r)"
    and init: "I r"
  shows "I (exec cn remoteAddr hdr sid sched r)"
  using init by (induction sched arbitrary: r) (simp_all add: step)

lemma example_upgrade_trace:
  "trace example_upgrade = [EvRegistered 5, EvProbeAck 5, EvReceived 5, EvStubbed 1]"
  by (simp add: example_upgrade_def setupUpgradeEventLoop_def ustep.simps GetChannel_def
      PingParams_def new_Channel_def init_def onConnection_def fire_upgradedC_def
      recv_upgradedC_def stub_def example_rooms_def Channel_Id_def)

lemma example_upgrade_locals:
  "pc example_upgrade = Returned" "loc_c example_upgrade = Some 5"
  "loc_cPolling example_upgrade = Some 1" "stubbed (heap (srv example_upgrade) 1)"
  by (simp_all add: example_upgrade_def setupUpgradeEventLoop_def ustep.simps GetChannel_def
      PingParams_def new_Channel_def init_def onConnection_def fire_upgradedC_def
      recv_upgradedC_def stub_def example_rooms_def Channel_Id_def)

lemma example_millis:
  "millis (pingInterval example_ws) = 30000" "millis (pingTimeout example_ws) = 60000"
  "millis (pingInterval example_conn) = 25000" "millis (pingTimeout example_conn) = 60000"
  by (simp_all add: millis_def example_ws_def example_conn_def)

declare ustep.simps [simp del]

lemma no_stub_simps [simp]:
  "no_stub []"
  "no_stub (tr @ [EvRegistered c]) = no_stub tr"
  "no_stub (tr @ [EvProbeAck c]) = no_stub tr"
  "no_stub (tr @ [EvReceived c]) = no_stub tr"
  by (auto simp: no_stub_def)

lemma signal_received_snoc:
  assumes "signal_received c tr"
  shows "signal_received c (tr @ [e])"
proof -
  from assms obtain p1 p2 where "tr = p1 @ EvProbeAck c # p2" and "EvReceived c \<in> set p2"
    by (auto simp: signal_received_def)
  then have "tr @ [e] = p1 @ EvProbeAck c # (p2 @ [e])" and "EvReceived c \<in> set (p2 @ [e])"
    by simp_all
  then show ?thesis unfolding signal_received_def by blast
qed

lemma signal_received_now:
  assumes "EvProbeAck c \<in> set tr"
  shows "signal_received c (tr @ [EvReceived c])"
proof -
  from assms obtain p1 p2 where "tr = p1 @ EvProbeAck c # p2"
    by (auto dest: split_list)
  then have "tr @ [EvReceived c] = p1 @ EvProbeAck c # (p2 @ [EvReceived c])"
    and "EvReceived c \<in> set (p2 @ [EvReceived c])"
    by simp_all
  then show ?thesis unfolding signal_received_def by blast
qed

lemma upgrade_inv_AtLookup:
  "pc r = AtLookup \<Longrightarrow> upgrade_inv r \<longleftrightarrow> loc_c r = None \<and> loc_cPolling r = None \<and> trace r = []"
  by (simp add: upgrade_inv_def)

lemma upgrade_inv_waiting:
  "pc r = AtRegister \<or> pc r = AtAwait \<Longrightarrow>
   upgrade_inv r \<longleftrightarrow>
     (\<exists>c cp. loc_c r = Some c \<and> loc_cPolling r = Some cp) \<and> no_stub (trace r)
     \<and> (\<forall>c. loc_c r = Some c \<longrightarrow> upgradedC (heap (srv r) c) \<longrightarrow> EvProbeAck c \<in> set (trace r))"
  by (auto simp: upgrade_inv_def)

lemma upgrade_inv_AtStub:
  "pc r = AtStub \<Longrightarrow>
   upgrade_inv r \<longleftrightarrow>
     (\<exists>c cp. loc_c r = Some c \<and> loc_cPolling r = Some cp \<and> signal_received c (trace r))
     \<and> no_stub (trace r)"
  by (simp add: upgrade_inv_def)

lemma upgrade_inv_Returned:
  "pc r = Returned \<Longrightarrow>
   upgrade_inv r \<longleftrightarrow>
     (loc_c r = None \<and> trace r = [])
     \<or> (\<exists>c cp pre post. loc_c r = Some c \<and> loc_cPolling r = Some cp
           \<and> trace r = pre @ EvStubbed cp # post
           \<and> signal_received c pre \<and> no_stub pre \<and> no_stub post)"
  by (simp add: upgrade_inv_def)

lemma upgrade_inv_orchestrator:
  assumes inv: "upgrade_inv r"
  shows "upgrade_inv (ustep cn remoteAddr hdr sid Orchestrator r)"
proof (cases "pc r")
  case AtLookup
  with inv have loc: "loc_c r = None" "loc_cPolling r = None" "trace r = []"
    by (simp_all add: upgrade_inv_AtLookup)
  show ?thesis
  proof (cases "sids (srv r) sid")
    case None
    with AtLookup loc show ?thesis
      by (simp add: ustep_lookup_fail upgrade_inv_Returned)
  next
    case (Some cp)
    let ?H = "\<lparr>Sid = sid, Upgrades = [],
               PingInterval = millis (pingInterval cn), PingTimeout = millis (pingTimeout cn)\<rparr>"
    have "\<not> upgradedC (heap (snd (new_Channel cn remoteAddr hdr ?H (srv r))) (brk (srv r)))"
      by (simp add: new_Channel_heap)
    with AtLookup Some loc show ?thesis
      by (simp add: ustep_lookup_ok upgrade_inv_waiting)
  qed
next
  case AtRegister
  with inv obtain c cp where loc: "loc_c r = Some c" "loc_cPolling r = Some cp"
    and ns: "no_stub (trace r)"
    and sig: "upgradedC (heap (srv r) c) \<longrightarrow> EvProbeAck c \<in> set (trace r)"
    by (auto simp: upgrade_inv_waiting)
  with AtRegister show ?thesis
    by (simp add: ustep_register upgrade_inv_waiting)
next
  case AtAwait
  with inv obtain c cp where loc: "loc_c r = Some c" "loc_cPolling r = Some cp"
    and ns: "no_stub (trace r)"
    and sig: "upgradedC (heap (srv r) c) \<longrightarrow> EvProbeAck c \<in> set (trace r)"
    by (auto simp: upgrade_inv_waiting)
  show ?thesis
  proof (cases "upgradedC (heap (srv r) c)")
    case True
    with sig have "signal_received c (trace r @ [EvReceived c])"
      by (simp add: signal_received_now)
    with AtAwait loc ns True show ?thesis
      by (simp add: ustep_await_received upgrade_inv_AtStub)
  next
    case False
    with AtAwait loc inv show ?thesis
      by (simp add: ustep_await_blocked)
  qed
next
  case AtStub
  with inv obtain c cp where loc: "loc_c r = Some c" "loc_cPolling r = Some cp"
    and sr: "signal_received c (trace r)" and ns: "no_stub (trace r)"
    by (auto simp: upgrade_inv_AtStub)
  have "\<exists>pre post. trace r @ [EvStubbed cp] = pre @ EvStubbed cp # post
          \<and> signal_received c pre \<and> no_stub pre \<and> no_stub post"
    using sr ns by (intro exI [of _ "trace r"] exI [of _ "[]"]) simp
  with AtStub loc show ?thesis
    by (simp add: ustep_stub upgrade_inv_Returned)
next
  case Returned
  with inv show ?thesis by (simp add: ustep_returned)
qed

lemma upgrade_inv_inLoop:
  assumes inv: "upgrade_inv r"
  shows "upgrade_inv (ustep cn remoteAddr hdr sid InLoop r)"
proof (cases "loc_c r")
  case None
  with inv show ?thesis by (simp add: ustep_inLoop_none)
next
  case (Some c)
  let ?r' = "r\<lparr>srv := fire_upgradedC c (srv r), trace := trace r @ [EvProbeAck c]\<rparr>"
  have step: "ustep cn remoteAddr hdr sid InLoop r = ?r'"
    using Some by (rule ustep_inLoop)
  have "upgrade_inv ?r'"
  proof (cases "pc r")
    case AtLookup
    with inv Some show ?thesis by (simp add: upgrade_inv_AtLookup)
  next
    case AtRegister
    with inv Some show ?thesis by (auto simp: upgrade_inv_waiting)
  next
    case AtAwait
    with inv Some show ?thesis by (auto simp: upgrade_inv_waiting)
  next
    case AtStub
    with inv Some show ?thesis
      by (auto simp: upgrade_inv_AtStub intro: signal_received_snoc)
  next
    case Returned
    with inv Some obtain cp pre post where cp: "loc_cPolling r = Some cp"
      and tr: "trace r = pre @ EvStubbed cp # post"
      and sr: "signal_received c pre" and ns: "no_stub pre" "no_stub post"
      by (auto simp: upgrade_inv_Returned)
    have "\<exists>pre' post'. trace r @ [EvProbeAck c] = pre' @ EvStubbed cp # post'
            \<and> signal_received c pre' \<and> no_stub pre' \<and> no_stub post'"
      using tr sr ns by (intro exI [of _ pre] exI [of _ "post @ [EvProbeAck c]"]) simp
    with Returned Some cp show ?thesis
      by (simp add: upgrade_inv_Returned)
  qed
  with step show ?thesis by simp
qed

lemma upgrade_inv_step:
  "upgrade_inv r \<Longrightarrow> upgrade_inv (ustep cn remoteAddr hdr sid a r)"
  by (cases a) (simp_all only: upgrade_inv_orchestrator upgrade_inv_inLoop)

lemma upgrade_inv_run:
  "upgrade_inv (setupUpgradeEventLoop cn remoteAddr hdr sid sched s)"
  unfolding setupUpgradeEventLoop_def
proof (rule exec_invariant [where I = upgrade_inv])
  fix a r
  assume "upgrade_inv r"
  then show "upgrade_inv (ustep cn remoteAddr hdr sid a r)" by (rule upgrade_inv_step)
next
  show "upgrade_inv \<lparr>pc = AtLookup, loc_cPolling = None, loc_c = None, srv = s, trace = []\<rparr>"
    by (simp add: upgrade_inv_AtLookup)
qed

lemma stub_traced_step:
  assumes inv: "stub_traced s0 r"
  shows "stub_traced s0 (ustep cn remoteAddr hdr sid a r)"
proof (cases a)
  case InLoop
  show ?thesis
  proof (cases "loc_c r")
    case None
    with inv InLoop show ?thesis by (simp add: ustep_inLoop_none)
  next
    case (Some c)
    with inv InLoop show ?thesis by (auto simp: ustep_inLoop stub_traced_def)
  qed
next
  case Orchestrator
  show ?thesis
  proof (cases "pc r")
    case AtLookup
    show ?thesis
    proof (cases "sids (srv r) sid")
      case None
      with inv AtLookup Orchestrator show ?thesis
        by (simp add: ustep_lookup_fail stub_traced_def)
    next
      case (Some cp)
      let ?H = "\<lparr>Sid = sid, Upgrades = [],
                 PingInterval = millis (pingInterval cn), PingTimeout = millis (pingTimeout cn)\<rparr>"
      have "stubbed (heap (snd (new_Channel cn remoteAddr hdr ?H (srv r))) y)
              \<longrightarrow> stubbed (heap (srv r) y)" for y
        by (cases "y = brk (srv r)") (simp_all add: new_Channel_heap new_Channel_heap_other)
      with inv AtLookup Orchestrator Some show ?thesis
        by (auto simp: ustep_lookup_ok stub_traced_def)
    qed
  next
    case AtRegister
    show ?thesis
    proof (cases "loc_c r")
      case None
      with inv AtRegister Orchestrator show ?thesis by (simp add: ustep.simps)
    next
      case (Some c)
      with inv AtRegister Orchestrator show ?thesis
        by (auto simp: ustep_register stub_traced_def)
    qed
  next
    case AtAwait
    show ?thesis
    proof (cases "loc_c r")
      case None
      with inv AtAwait Orchestrator show ?thesis by (simp add: ustep.simps)
    next
      case (Some c)
      with inv AtAwait Orchestrator show ?thesis
        by (cases "upgradedC (heap (srv r) c)")
          (auto simp: ustep_await_received ustep_await_blocked stub_traced_def)
    qed
  next
    case AtStub
    show ?thesis
    proof (cases "loc_cPolling r")
      case None
      with inv AtStub Orchestrator show ?thesis by (simp add: ustep.simps)
    next
      case (Some cp)
      with inv AtStub Orchestrator show ?thesis
        by (auto simp: ustep_stub stub_traced_def)
    qed
  next
    case Returned
    with inv Orchestrator show ?thesis by (simp add: ustep_returned)
  qed
qed

lemma stub_traced_run:
  "stub_traced s (setupUpgradeEventLoop cn remoteAddr hdr sid sched s)"
  unfolding setupUpgradeEventLoop_def
proof (rule exec_invariant [where I = "stub_traced s"])
  fix a r
  assume "stub_traced s r"
  then show "stub_traced s (ustep cn remoteAddr hdr sid a r)" by (rule stub_traced_step)
next
  show "stub_traced s \<lparr>pc = AtLookup, loc_cPolling = None, loc_c = None, srv = s, trace = []\<rparr>"
    by (simp add: stub_traced_def)
qed

lemma upgrade_header_inv_step:
  assumes inv: "upgrade_header_inv cn sid s0 r"
  shows "upgrade_header_inv cn sid s0 (ustep cn remoteAddr hdr sid a r)"
proof (cases a)
  case InLoop
  show ?thesis
  proof (cases "loc_c r")
    case None
    with inv InLoop show ?thesis by (simp add: ustep_inLoop_none)
  next
    case (Some c)
    with inv InLoop show ?thesis by (auto simp: ustep_inLoop upgrade_header_inv_def)
  qed
next
  case Orchestrator
  show ?thesis
  proof (cases "pc r")
    case AtLookup
    with inv have s0: "srv r = s0" and loc: "loc_c r = None"
      by (simp_all add: upgrade_header_inv_def)
    show ?thesis
    proof (cases "sids (srv r) sid")
      case None
      with inv AtLookup Orchestrator show ?thesis
        by (simp add: ustep_lookup_fail upgrade_header_inv_def)
    next
      case (Some cp)
      with AtLookup Orchestrator s0 show ?thesis
        by (simp add: ustep_lookup_ok upgrade_header_inv_def new_Channel_heap)
    qed
  next
    case AtRegister
    show ?thesis
    proof (cases "loc_c r")
      case None
      with inv AtRegister Orchestrator show ?thesis by (simp add: ustep.simps)
    next
      case (Some c)
      with inv AtRegister Orchestrator show ?thesis
        by (simp add: ustep_register upgrade_header_inv_def)
    qed
  next
    case AtAwait
    show ?thesis
    proof (cases "loc_c r")
      case None
      with inv AtAwait Orchestrator show ?thesis by (simp add: ustep.simps)
    next
      case (Some c)
      with inv AtAwait Orchestrator show ?thesis
        by (cases "upgradedC (heap (srv r) c)")
          (simp_all add: ustep_await_received ustep_await_blocked upgrade_header_inv_def)
    qed
  next
    case AtStub
    show ?thesis
    proof (cases "loc_cPolling r")
      case None
      with inv AtStub Orchestrator show ?thesis by (simp add: ustep.simps)
    next
      case (Some cp)
      with inv AtStub Orchestrator show ?thesis
        by (simp add: ustep_stub upgrade_header_inv_def)
    qed
  next
    case Returned
    with inv Orchestrator show ?thesis by (simp add: ustep_returned)
  qed
qed

lemma upgrade_header_inv_run:
  "upgrade_header_inv cn sid s (setupUpgradeEventLoop cn remoteAddr hdr sid sched s)"
  unfolding setupUpgradeEventLoop_def
proof (rule exec_invariant [where I = "upgrade_header_inv cn sid s"])
  fix a r
  assume "upgrade_header_inv cn sid s r"
  then show "upgrade_header_inv cn sid s (ustep cn remoteAddr hdr sid a r)"
    by (rule upgrade_header_inv_step)
next
  show "upgrade_header_inv cn sid s
          \<lparr>pc = AtLookup, loc_cPolling = None, loc_c = None, srv = s, trace = []\<rparr>"
    by (simp add: upgrade_header_inv_def)
qed

lemma exec_lookup_fail:
  assumes "sids (srv r) sid = None" and "loc_c r = None"
    and "pc r = AtLookup \<or> pc r = Returned"
  shows "exec cn remoteAddr hdr sid sched r
           = (if Orchestrator \<in> set sched then r\<lparr>pc := Returned\<rparr> else r)"
  using assms
proof (induction sched arbitrary: r)
  case Nil
  show ?case by simp
next
  case (Cons a sched)
  show ?case
  proof (cases a)
    case InLoop
    with Cons.prems have "ustep cn remoteAddr hdr sid a r = r"
      by (simp add: ustep_inLoop_none)
    with Cons InLoop show ?thesis by simp
  next
    case Orchestrator
    have step: "ustep cn remoteAddr hdr sid a r = r\<lparr>pc := Returned\<rparr>"
      using Cons.prems Orchestrator by (auto simp: ustep_lookup_fail ustep_returned)
    have "exec cn remoteAddr hdr sid sched (r\<lparr>pc := Returned\<rparr>)
            = (if Orchestrator \<in> set sched then r\<lparr>pc := Returned\<rparr>\<lparr>pc := Returned\<rparr>
               else r\<lparr>pc := Returned\<rparr>)"
      using Cons.prems by (intro Cons.IH) simp_all
    with step Orchestrator show ?thesis by simp
  qed
qed

lemma stub_position:
  assumes "pre @ EvStubbed cp # post = pre' @ EvStubbed x # post'"
    and "no_stub pre" and "no_stub post"
  shows "pre' = pre \<and> x = cp \<and> post' = post"
  using assms
proof (induction pre arbitrary: pre')
  case Nil
  show ?case
  proof (cases pre')
    case Nil
    with Nil.prems show ?thesis by simp
  next
    case (Cons z zs)
    with Nil.prems have "EvStubbed x \<in> set post" by auto
    with Nil.prems show ?thesis by (simp add: no_stub_def)
  qed
next
  case (Cons y ys)
  show ?case
  proof (cases pre')
    case Nil
    with Cons.prems have "y = EvStubbed x" by simp
    moreover from Cons.prems have "EvStubbed x \<noteq> y" unfolding no_stub_def by auto
    ultimately show ?thesis by simp
  next
    case (Cons z zs)
    with Cons.prems have eq: "ys @ EvStubbed cp # post = zs @ EvStubbed x # post'" and "y = z"
      by simp_all
    moreover have "no_stub ys" using Cons.prems by (simp add: no_stub_def)
    ultimately have "zs = ys \<and> x = cp \<and> post' = post"
      using Cons.prems by (intro Cons.IH) simp_all
    with Cons \<open>y = z\<close> show ?thesis by simp
  qed
qed

section \<open>Transport upgrade: results\<close>

text \<open>
  C2. In every execution of the upgrade, under every schedule of the function and the
  inbound loop of the new channel: a stub event in the trace is the stub of the old channel,
  and the trace before it holds the firing of the new channel's upgrade signal followed by
  its receipt by the function; it is the only stub event. A channel that is stubbed after
  the execution and was not before has its stub event in the trace.
\<close>

theorem stub_only_after_upgrade_signal:
  "(\<forall>pre x post.
      trace (setupUpgradeEventLoop cn remoteAddr hdr sid sched s) = pre @ EvStubbed x # post \<longrightarrow>
        (\<exists>c p1 p2. loc_c (setupUpgradeEventLoop cn remoteAddr hdr sid sched s) = Some c
            \<and> loc_cPolling (setupUpgradeEventLoop cn remoteAddr hdr sid sched s) = Some x
            \<and> pre = p1 @ EvProbeAck c # p2 \<and> EvReceived c \<in> set p2)
        \<and> no_stub pre \<and> no_stub post)
   \<and> (\<forall>y. stubbed (heap (srv (setupUpgradeEventLoop cn remoteAddr hdr sid sched s)) y)
           \<and> \<not> stubbed (heap s y) \<longrightarrow>
         EvStubbed y \<in> set (trace (setupUpgradeEventLoop cn remoteAddr hdr sid sched s)))"
proof -
  let ?R = "setupUpgradeEventLoop cn remoteAddr hdr sid sched s"
  have inv: "upgrade_inv ?R" by (rule upgrade_inv_run)
  have order: "(\<exists>c p1 p2. loc_c ?R = Some c \<and> loc_cPolling ?R = Some x
                  \<and> pre = p1 @ EvProbeAck c # p2 \<and> EvReceived c \<in> set p2)
               \<and> no_stub pre \<and> no_stub post"
    if tr: "trace ?R = pre @ EvStubbed x # post" for pre x post
  proof -
    from tr have stub: "\<not> no_stub (trace ?R)" and ne: "trace ?R \<noteq> []"
      by (auto simp: no_stub_def)
    have ret: "pc ?R = Returned"
    proof (cases "pc ?R")
      case AtLookup
      with inv ne show ?thesis by (simp add: upgrade_inv_AtLookup)
    next
      case AtRegister
      with inv stub show ?thesis by (simp add: upgrade_inv_waiting)
    next
      case AtAwait
      with inv stub show ?thesis by (simp add: upgrade_inv_waiting)
    next
      case AtStub
      with inv stub show ?thesis by (simp add: upgrade_inv_AtStub)
    next
      case Returned
      then show ?thesis .
    qed
    with inv ne obtain c cp pre' post' where loc: "loc_c ?R = Some c" "loc_cPolling ?R = Some cp"
      and tr': "trace ?R = pre' @ EvStubbed cp # post'"
      and sr: "signal_received c pre'" and ns: "no_stub pre'" "no_stub post'"
      by (auto simp: upgrade_inv_Returned)
    from tr tr' have "pre' @ EvStubbed cp # post' = pre @ EvStubbed x # post" by simp
    then have "pre = pre' \<and> x = cp \<and> post = post'" using ns by (rule stub_position)
    with loc sr ns show ?thesis by (auto simp: signal_received_def)
  qed
  have "stub_traced s ?R" by (rule stub_traced_run)
  then have "\<forall>y. stubbed (heap (srv ?R) y) \<and> \<not> stubbed (heap s y) \<longrightarrow> EvStubbed y \<in> set (trace ?R)"
    by (auto simp: stub_traced_def)
  with order show ?thesis by blast
qed

theorem stub_only_after_upgrade_signal_witness:
  "trace example_upgrade = [EvRegistered 5, EvProbeAck 5, EvReceived 5] @ EvStubbed 1 # []
   \<and> (\<exists>c p1 p2. loc_c example_upgrade = Some c \<and> loc_cPolling example_upgrade = Some 1
         \<and> [EvRegistered 5, EvProbeAck 5, EvReceived 5] = p1 @ EvProbeAck c # p2
         \<and> EvReceived c \<in> set p2)
   \<and> stubbed (heap (srv example_upgrade) 1) \<and> \<not> stubbed (heap example_rooms 1)
   \<and> EvStubbed 1 \<in> set (trace example_upgrade)"
proof -
  have tr: "trace example_upgrade = [EvRegistered 5, EvProbeAck 5, EvReceived 5] @ EvStubbed 1 # []"
    by (simp add: example_upgrade_trace)
  have st: "stubbed (heap (srv example_upgrade) 1)" by (rule example_upgrade_locals)
  have ns: "\<not> stubbed (heap example_rooms 1)" by (simp add: example_rooms_def)
  note run = stub_only_after_upgrade_signal [of example_ws "''10.0.0.1:5000''" "[]" "''X''"
      "[Orchestrator, Orchestrator, InLoop, Orchestrator, Orchestrator]" example_rooms,
      folded example_upgrade_def]
  from run tr have "\<exists>c p1 p2. loc_c example_upgrade = Some c \<and> loc_cPolling example_upgrade = Some 1
         \<and> [EvRegistered 5, EvProbeAck 5, EvReceived 5] = p1 @ EvProbeAck c # p2
         \<and> EvReceived c \<in> set p2"
    by blast
  moreover from run st ns have "EvStubbed 1 \<in> set (trace example_upgrade)" by blast
  ultimately show ?thesis using tr st ns by blast
qed

text \<open>
  C7. When the session id of the upgrade request has no entry in the registry, every
  execution leaves the server as it was (registry, room index, channel objects and the next
  address: no channel is constructed, registered or stubbed), has no new channel and no
  event, and the call has returned as soon as it has taken its first step.
\<close>

theorem setupUpgradeEventLoop_unknown_sid:
  assumes "sids s sid = None"
  shows "setupUpgradeEventLoop cn remoteAddr hdr sid sched s
           = \<lparr>pc = (if Orchestrator \<in> set sched then Returned else AtLookup),
              loc_cPolling = None, loc_c = None, srv = s, trace = []\<rparr>"
proof -
  let ?r = "\<lparr>pc = AtLookup, loc_cPolling = None, loc_c = None, srv = s, trace = []\<rparr>"
  have "exec cn remoteAddr hdr sid sched ?r
          = (if Orchestrator \<in> set sched then ?r\<lparr>pc := Returned\<rparr> else ?r)"
    using assms by (intro exec_lookup_fail) simp_all
  then show ?thesis by (simp add: setupUpgradeEventLoop_def)
qed

theorem setupUpgradeEventLoop_unknown_sid_witness:
  "sids example_rooms ''Q'' = None
   \<and> setupUpgradeEventLoop example_ws ''10.0.0.1:5000'' [] ''Q''
        [InLoop, Orchestrator, InLoop, Orchestrator] example_rooms
       = \<lparr>pc = Returned, loc_cPolling = None, loc_c = None, srv = example_rooms, trace = []\<rparr>"
proof -
  have q: "sids example_rooms ''Q'' = None" by (simp add: example_rooms_def)
  from q setupUpgradeEventLoop_unknown_sid [OF q, of example_ws "''10.0.0.1:5000''" "[]"
      "[InLoop, Orchestrator, InLoop, Orchestrator]"]
  show ?thesis by simp
qed

text \<open>
  C8. In every execution of the upgrade, once the new channel exists its connection header
  is the session id of the request, no upgrade target, and the ping interval and timeout of
  the new connection in milliseconds; it is bound to the new connection; the channel it
  replaces is the one registered for that id, so where the registry is keyed by the
  channels' own ids the two ids are equal. The header of a fresh connection carries the
  generated id and the one upgrade target \<open>websocket\<close>.
\<close>

theorem upgrade_header_same_sid:
  "(\<forall>c. loc_c (setupUpgradeEventLoop cn remoteAddr hdr sid sched s) = Some c \<longrightarrow>
      connHeader (heap (srv (setupUpgradeEventLoop cn remoteAddr hdr sid sched s)) c)
        = \<lparr>Sid = sid, Upgrades = [],
           PingInterval = millis (pingInterval cn), PingTimeout = millis (pingTimeout cn)\<rparr>
      \<and> conn (heap (srv (setupUpgradeEventLoop cn remoteAddr hdr sid sched s)) c) = cn)
   \<and> (\<forall>cp. loc_cPolling (setupUpgradeEventLoop cn remoteAddr hdr sid sched s) = Some cp \<longrightarrow>
         sids s sid = Some cp)
   \<and> (\<forall>c cp. loc_c (setupUpgradeEventLoop cn remoteAddr hdr sid sched s) = Some c
         \<and> loc_cPolling (setupUpgradeEventLoop cn remoteAddr hdr sid sched s) = Some cp
         \<and> Channel_Id s cp = sid \<longrightarrow>
         Channel_Id (srv (setupUpgradeEventLoop cn remoteAddr hdr sid sched s)) c = Channel_Id s cp)
   \<and> connHeader (heap (snd (setupEventLoop marshal MustEncode sid' cn' addr' hdr' s)) (brk s))
       = \<lparr>Sid = sid', Upgrades = [''websocket''],
          PingInterval = millis (pingInterval cn'), PingTimeout = millis (pingTimeout cn')\<rparr>
   \<and> (\<forall>c. fst (setupEventLoop marshal MustEncode sid' cn' addr' hdr' s) = Inr c \<longrightarrow> c = brk s)"
proof -
  let ?R = "setupUpgradeEventLoop cn remoteAddr hdr sid sched s"
  let ?H = "\<lparr>Sid = sid', Upgrades = [''websocket''],
             PingInterval = millis (pingInterval cn'), PingTimeout = millis (pingTimeout cn')\<rparr>"
  let ?s1 = "snd (new_Channel cn' addr' hdr' ?H s)"
  have inv: "upgrade_header_inv cn sid s ?R" by (rule upgrade_header_inv_run)
  then have up: "\<forall>c. loc_c ?R = Some c \<longrightarrow>
      connHeader (heap (srv ?R) c)
        = \<lparr>Sid = sid, Upgrades = [],
           PingInterval = millis (pingInterval cn), PingTimeout = millis (pingTimeout cn)\<rparr>
      \<and> conn (heap (srv ?R) c) = cn"
    and old: "\<forall>cp. loc_cPolling ?R = Some cp \<longrightarrow> sids s sid = Some cp"
    by (simp_all add: upgrade_header_inv_def)
  from up have same: "\<forall>c cp. loc_c ?R = Some c \<and> loc_cPolling ?R = Some cp
         \<and> Channel_Id s cp = sid \<longrightarrow> Channel_Id (srv ?R) c = Channel_Id s cp"
    by (simp add: Channel_Id_def)
  have fresh: "connHeader (heap (snd (setupEventLoop marshal MustEncode sid' cn' addr' hdr' s)) (brk s)) = ?H
               \<and> (\<forall>c. fst (setupEventLoop marshal MustEncode sid' cn' addr' hdr' s) = Inr c \<longrightarrow> c = brk s)"
  proof (cases "marshal ?H")
    case (Inl err)
    then have "marshal (connHeader (heap ?s1 (brk s))) = Inl err"
      by (simp add: new_Channel_heap)
    then have "sendOpenSequence marshal MustEncode (brk s) ?s1 = (Inl (Panic err), ?s1)"
      by (rule sendOpenSequence_fail)
    then show ?thesis by (simp add: setupEventLoop_unfold new_Channel_heap)
  next
    case (Inr jsonHdr)
    then have "marshal (connHeader (heap ?s1 (brk s))) = Inr jsonHdr"
      by (simp add: new_Channel_heap)
    then have "sendOpenSequence marshal MustEncode (brk s) ?s1
           = (Inr (),
              ?s1\<lparr>heap := (heap ?s1)(brk s := (heap ?s1 (brk s))\<lparr>outC := outC (heap ?s1 (brk s))
                   @ [MustEncode \<lparr>Type = MessageTypeOpen, Args = jsonHdr\<rparr>,
                      MustEncode \<lparr>Type = MessageTypeEmpty, Args = []\<rparr>]\<rparr>)\<rparr>)"
      by (rule sendOpenSequence_ok)
    then show ?thesis by (simp add: setupEventLoop_unfold new_Channel_heap)
  qed
  from up old same fresh show ?thesis by blast
qed

theorem upgrade_header_same_sid_witness:
  "loc_c example_upgrade = Some 5 \<and> loc_cPolling example_upgrade = Some 1
   \<and> pc example_upgrade = Returned
   \<and> Channel_Id example_rooms 1 = ''X''
   \<and> connHeader (heap (srv example_upgrade) 5)
       = \<lparr>Sid = ''X'', Upgrades = [], PingInterval = 30000, PingTimeout = 60000\<rparr>
   \<and> sids example_rooms ''X'' = Some 1
   \<and> Channel_Id (srv example_upgrade) 5 = Channel_Id example_rooms 1
   \<and> fst (setupEventLoop example_marshal example_encode ''abc123'' example_conn
            ''10.0.0.9:1'' [] example_rooms) = Inr 5
   \<and> connHeader (heap (snd (setupEventLoop example_marshal example_encode ''abc123'' example_conn
                              ''10.0.0.9:1'' [] example_rooms)) 5)
       = \<lparr>Sid = ''abc123'', Upgrades = [''websocket''], PingInterval = 25000, PingTimeout = 60000\<rparr>"
proof -
  have id: "Channel_Id example_rooms 1 = ''X''"
    by (simp add: Channel_Id_def example_rooms_def)
  have b: "brk example_rooms = 5" by (simp add: example_rooms_def)
  have fresh: "fst (setupEventLoop example_marshal example_encode ''abc123'' example_conn
            ''10.0.0.9:1'' [] example_rooms) = Inr 5"
    by (simp add: setupEventLoop_unfold sendOpenSequence_def example_marshal_def b)
  note run = upgrade_header_same_sid [of example_ws "''10.0.0.1:5000''" "[]" "''X''"
      "[Orchestrator, Orchestrator, InLoop, Orchestrator, Orchestrator]" example_rooms
      example_marshal example_encode "''abc123''" example_conn "''10.0.0.9:1''" "[]",
      folded example_upgrade_def]
  from run example_upgrade_locals example_millis id b fresh show ?thesis by simp
qed

end
